theory Spec2Isabelle
  imports Complex_Main "HOL-Library.Sublist"
begin

section \<open>Data model of the provider router\<close>

text \<open>
  The development embeds \<^verbatim>\<open>src/providers/provider-router.ts\<close> (class
  \<^verbatim>\<open>ProviderRouter\<close>), \<^verbatim>\<open>src/providers/error.ts\<close> and
  \<^verbatim>\<open>src/utils/token-estimator.ts\<close>.

  Conventions of the embedding:
  \<^item> Millisecond timestamps and the durations parsed from the process environment are
    \<open>int\<close> (the environment values are taken to be well-formed integers).
  \<^item> \<^verbatim>\<open>cost_per_1k\<close> and the estimated cost are JavaScript doubles in the source;
    they are exact rationals here, so the order of costs is the order of the exact products.
  \<^item> A JavaScript string is a \<open>string\<close>; the patterns of the classifier are ASCII.
  \<^item> Everything outside the router object (the system clock read by \<^verbatim>\<open>Date.now()\<close>
    and \<^verbatim>\<open>new Date()\<close>, and the upstream services behind the providers) is a world
    state of an arbitrary type \<open>'w\<close>: reading the clock and calling a provider take a
    world and return the next one. Nothing is assumed of the clock: its readings need not
    increase.
  \<^item> One invocation of \<^verbatim>\<open>analyzeData\<close> is followed from its start to its end: the
    fields of the router change only through that invocation, not through another one
    running while a provider call is pending.
\<close>

datatype ProviderName = Claude | OpenAI | DeepSeek

text \<open>\<^verbatim>\<open>class AIProviderError extends Error\<close>: the fields the constructor sets.\<close>

record AIProviderError =
  err_provider :: ProviderName
  err_message :: string
  err_status :: "int option"
  err_retryable :: bool

text \<open>The constructor of \<^verbatim>\<open>AIProviderError\<close>: \<^verbatim>\<open>retryable\<close> defaults to true.\<close>

definition new_AIProviderError ::
    "ProviderName \<Rightarrow> string \<Rightarrow> int option \<Rightarrow> bool option \<Rightarrow> AIProviderError" where
  "new_AIProviderError p msg st rt =
     \<lparr>err_provider = p, err_message = msg, err_status = st,
      err_retryable = (case rt of None \<Rightarrow> True | Some b \<Rightarrow> b)\<rparr>"

text \<open>
  What a \<^verbatim>\<open>catch (err)\<close> can receive: an \<^verbatim>\<open>AIProviderError\<close>, another instance of
  \<^verbatim>\<open>Error\<close> (with its message), or a value that is no \<^verbatim>\<open>Error\<close> at all (with
  its rendering by \<^verbatim>\<open>String(err)\<close>).
\<close>

datatype thrown = ProviderError AIProviderError | OtherError string | NonError string

fun instanceof_Error :: "thrown \<Rightarrow> bool" where
  "instanceof_Error (ProviderError e) = True"
| "instanceof_Error (OtherError m) = True"
| "instanceof_Error (NonError v) = False"

type_synonym 'w clock = "'w \<Rightarrow> int \<times> 'w"

text \<open>\<^verbatim>\<open>type RoutedProvider\<close>: the capability is one remote call, which returns or throws.\<close>

record ('w, 'r) RoutedProvider =
  name :: ProviderName
  provider :: "'w \<Rightarrow> (thrown + 'r) \<times> 'w"
  cost_per_1k :: "rat option"

record LastError =
  le_status :: "int option"
  le_message :: string
  le_at :: int

text \<open>
  \<^verbatim>\<open>type ProviderState\<close>. The field \<^verbatim>\<open>at\<close> of \<^verbatim>\<open>last_error\<close> is the ISO rendering
  of the clock reading taken by \<^verbatim>\<open>new Date()\<close>; the reading itself is kept.
\<close>

record ProviderState =
  cooldown_until_ms :: int
  consecutive_failures :: nat
  disabled_until_ms :: int
  last_error :: "LastError option"

record QuotaState =
  used :: nat
  max_q :: int
  window_ms :: int

text \<open>
  What an invocation of the router leaves behind outside its own fields: the three logger
  calls of \<^verbatim>\<open>analyzeData\<close> and the call \<^verbatim>\<open>c.provider.analyzeData(...)\<close> itself.
\<close>

datatype event =
    LogQuotaExceeded ProviderName QuotaState
  | LogRouting ProviderName QuotaState nat rat
  | Invoke ProviderName
  | LogProviderFailed ProviderName "int option" bool string

text \<open>
  The fields of a \<^verbatim>\<open>ProviderRouter\<close> instance, together with the environment it runs in:
  \<open>strategy\<close> is the variable \<^verbatim>\<open>AI_PROVIDER_STRATEGY\<close> of the process environment,
  \<open>world\<close> the state of the clock and of the upstream services, \<open>trace\<close> the events
  emitted so far.
\<close>

record ('w, 'r) ProviderRouter =
  providers :: "('w, 'r) RoutedProvider list"
  state :: "ProviderName \<rightharpoonup> ProviderState"
  rateLimitCooldownMs :: int
  errorCooldownMs :: int
  authDisableMs :: int
  paymentDisableMs :: int
  localQuotaMax :: int
  localQuotaWindowMs :: int
  localQuota :: "ProviderName \<rightharpoonup> int list"
  strategy :: "string option"
  world :: 'w
  trace :: "event list"

text \<open>The values the field initialisers read from the process environment.\<close>

record Env =
  AI_RL_COOLDOWN_MS :: int
  AI_ERR_COOLDOWN_MS :: int
  AI_AUTH_DISABLE_MS :: int
  AI_PAYMENT_DISABLE_MS :: int
  AI_LOCAL_QUOTA_MAX :: int
  AI_LOCAL_QUOTA_WINDOW_MS :: int
  AI_PROVIDER_STRATEGY :: "string option"

text \<open>The defaults of the field initialisers, used when a variable is not set.\<close>

definition default_Env :: Env where
  "default_Env =
     \<lparr>AI_RL_COOLDOWN_MS = 60000, AI_ERR_COOLDOWN_MS = 15000,
      AI_AUTH_DISABLE_MS = 24 * 60 * 60 * 1000, AI_PAYMENT_DISABLE_MS = 24 * 60 * 60 * 1000,
      AI_LOCAL_QUOTA_MAX = 5, AI_LOCAL_QUOTA_WINDOW_MS = 60000,
      AI_PROVIDER_STRATEGY = None\<rparr>"

section \<open>The constructor\<close>

definition initial_ProviderState :: ProviderState where
  "initial_ProviderState =
     \<lparr>cooldown_until_ms = 0, consecutive_failures = 0, disabled_until_ms = 0,
      last_error = None\<rparr>"

text \<open>The body of \<^verbatim>\<open>providers.forEach\<close> in the constructor.\<close>

definition register :: "('w, 'r) RoutedProvider \<Rightarrow> ('w, 'r) ProviderRouter \<Rightarrow> ('w, 'r) ProviderRouter" where
  "register p r =
     r\<lparr>state := (state r)(name p \<mapsto> initial_ProviderState),
       localQuota := (localQuota r)(name p \<mapsto> [])\<rparr>"

text \<open>
  \<^verbatim>\<open>constructor(providers)\<close>: throws on the empty list (\<open>Inl\<close> carries the thrown
  value), otherwise keeps the list and registers every provider.
\<close>

definition new_ProviderRouter ::
    "Env \<Rightarrow> 'w \<Rightarrow> ('w, 'r) RoutedProvider list \<Rightarrow> thrown + ('w, 'r) ProviderRouter" where
  "new_ProviderRouter env w ps =
     (if length ps = 0 then Inl (OtherError ''ProviderRouter requires at least one provider'')
      else Inr (fold register ps
        \<lparr>providers = ps, state = Map.empty,
         rateLimitCooldownMs = AI_RL_COOLDOWN_MS env,
         errorCooldownMs = AI_ERR_COOLDOWN_MS env,
         authDisableMs = AI_AUTH_DISABLE_MS env,
         paymentDisableMs = AI_PAYMENT_DISABLE_MS env,
         localQuotaMax = AI_LOCAL_QUOTA_MAX env,
         localQuotaWindowMs = AI_LOCAL_QUOTA_WINDOW_MS env,
         localQuota = Map.empty,
         strategy = AI_PROVIDER_STRATEGY env,
         world = w, trace = []\<rparr>))"

section \<open>Cooldown and disable state\<close>

text \<open>
  \<^verbatim>\<open>!!s && Date.now() < s.cooldown_until_ms\<close>: the clock is read only when the provider
  has a state.
\<close>

definition isInCooldown ::
    "'w clock \<Rightarrow> ProviderName \<Rightarrow> ('w, 'r) ProviderRouter \<Rightarrow> bool \<times> ('w, 'r) ProviderRouter" where
  "isInCooldown clk n r =
     (case state r n of
        None \<Rightarrow> (False, r)
      | Some s \<Rightarrow> (case clk (world r) of (now, w') \<Rightarrow> (now < cooldown_until_ms s, r\<lparr>world := w'\<rparr>)))"

definition cooldown ::
    "'w clock \<Rightarrow> ProviderName \<Rightarrow> int \<Rightarrow> ('w, 'r) ProviderRouter \<Rightarrow> ('w, 'r) ProviderRouter" where
  "cooldown clk n ms r =
     (case state r n of
        None \<Rightarrow> r
      | Some s \<Rightarrow> (case clk (world r) of (now, w') \<Rightarrow>
          r\<lparr>state := (state r)(n \<mapsto> s\<lparr>cooldown_until_ms := max (cooldown_until_ms s) (now + ms)\<rparr>),
            world := w'\<rparr>))"

definition isDisabled ::
    "'w clock \<Rightarrow> ProviderName \<Rightarrow> ('w, 'r) ProviderRouter \<Rightarrow> bool \<times> ('w, 'r) ProviderRouter" where
  "isDisabled clk n r =
     (case state r n of
        None \<Rightarrow> (False, r)
      | Some s \<Rightarrow> (case clk (world r) of (now, w') \<Rightarrow> (now < disabled_until_ms s, r\<lparr>world := w'\<rparr>)))"

definition disable ::
    "'w clock \<Rightarrow> ProviderName \<Rightarrow> int \<Rightarrow> ('w, 'r) ProviderRouter \<Rightarrow> ('w, 'r) ProviderRouter" where
  "disable clk n ms r =
     (case state r n of
        None \<Rightarrow> r
      | Some s \<Rightarrow> (case clk (world r) of (now, w') \<Rightarrow>
          r\<lparr>state := (state r)(n \<mapsto> s\<lparr>disabled_until_ms := max (disabled_until_ms s) (now + ms)\<rparr>),
            world := w'\<rparr>))"

definition markSuccess :: "ProviderName \<Rightarrow> ('w, 'r) ProviderRouter \<Rightarrow> ('w, 'r) ProviderRouter" where
  "markSuccess n r =
     (case state r n of
        None \<Rightarrow> r
      | Some s \<Rightarrow> r\<lparr>state := (state r)(n \<mapsto> s\<lparr>consecutive_failures := 0, cooldown_until_ms := 0\<rparr>)\<rparr>)"

definition markFailure :: "ProviderName \<Rightarrow> ('w, 'r) ProviderRouter \<Rightarrow> ('w, 'r) ProviderRouter" where
  "markFailure n r =
     (case state r n of
        None \<Rightarrow> r
      | Some s \<Rightarrow> r\<lparr>state := (state r)(n \<mapsto> s\<lparr>consecutive_failures := consecutive_failures s + 1\<rparr>)\<rparr>)"

text \<open>\<^verbatim>\<open>recordError\<close>: \<^verbatim>\<open>new Date()\<close> reads the clock, only when the provider has a state.\<close>

definition recordError ::
    "'w clock \<Rightarrow> ProviderName \<Rightarrow> AIProviderError \<Rightarrow> ('w, 'r) ProviderRouter \<Rightarrow> ('w, 'r) ProviderRouter" where
  "recordError clk n err r =
     (case state r n of
        None \<Rightarrow> r
      | Some s \<Rightarrow> (case clk (world r) of (now, w') \<Rightarrow>
          r\<lparr>state := (state r)(n \<mapsto> s\<lparr>last_error :=
                Some \<lparr>le_status = err_status err, le_message = err_message err, le_at = now\<rparr>\<rparr>),
            world := w'\<rparr>))"

section \<open>Local quota\<close>

text \<open>
  \<^verbatim>\<open>checkAndConsumeLocalQuota\<close>: one clock reading; the pruned list is stored on both
  paths, and the reading is appended on the accepting one.
\<close>

definition checkAndConsumeLocalQuota ::
    "'w clock \<Rightarrow> ProviderName \<Rightarrow> ('w, 'r) ProviderRouter \<Rightarrow> bool \<times> ('w, 'r) ProviderRouter" where
  "checkAndConsumeLocalQuota clk n r =
     (case clk (world r) of (now, w') \<Rightarrow>
        (let windowStart = now - localQuotaWindowMs r;
             arr = (case localQuota r n of None \<Rightarrow> [] | Some a \<Rightarrow> a);
             fresh = filter (\<lambda>t. t \<ge> windowStart) arr
         in if int (length fresh) \<ge> localQuotaMax r
            then (False, r\<lparr>localQuota := (localQuota r)(n \<mapsto> fresh), world := w'\<rparr>)
            else (True, r\<lparr>localQuota := (localQuota r)(n \<mapsto> fresh @ [now]), world := w'\<rparr>)))"

definition getLocalQuotaState ::
    "'w clock \<Rightarrow> ProviderName \<Rightarrow> ('w, 'r) ProviderRouter \<Rightarrow> QuotaState \<times> ('w, 'r) ProviderRouter" where
  "getLocalQuotaState clk n r =
     (case clk (world r) of (now, w') \<Rightarrow>
        (let windowStart = now - localQuotaWindowMs r;
             arr = filter (\<lambda>t. t \<ge> windowStart) (case localQuota r n of None \<Rightarrow> [] | Some a \<Rightarrow> a)
         in (\<lparr>used = length arr, max_q = localQuotaMax r, window_ms = localQuotaWindowMs r\<rparr>,
             r\<lparr>world := w'\<rparr>)))"

section \<open>Error mapping\<close>

text \<open>ASCII case folding: all a case-insensitive match against an ASCII pattern can see.\<close>

definition toLowerCase_char :: "char \<Rightarrow> char" where
  "toLowerCase_char c =
     (case map_of (zip ''ABCDEFGHIJKLMNOPQRSTUVWXYZ'' ''abcdefghijklmnopqrstuvwxyz'') c of
        None \<Rightarrow> c | Some l \<Rightarrow> l)"

definition toLowerCase :: "string \<Rightarrow> string" where
  "toLowerCase s = map toLowerCase_char s"

text \<open>\<open>str_includes s p\<close>: the pattern \<open>p\<close> occurs in \<open>s\<close> as a contiguous substring.\<close>

fun str_includes :: "string \<Rightarrow> string \<Rightarrow> bool" where
  "str_includes [] p = (p = [])"
| "str_includes (c # cs) p = (prefix p (c # cs) \<or> str_includes cs p)"

text \<open>
  \<^verbatim>\<open>/a|b|c/i.test(msg)\<close> for a regular expression that is an alternation of literal,
  lower-case patterns.
\<close>

definition test_i :: "string list \<Rightarrow> string \<Rightarrow> bool" where
  "test_i alts msg = list_ex (str_includes (toLowerCase msg)) alts"

definition looksLikeRateLimit :: "string \<Rightarrow> bool" where
  "looksLikeRateLimit msg = test_i [''rate limit'', ''429''] msg"

definition looksLikeAuth :: "string \<Rightarrow> bool" where
  "looksLikeAuth msg =
     test_i [''invalid api key'', ''unauthorized'', ''forbidden'', ''401'', ''403''] msg"

definition looksLikePayment :: "string \<Rightarrow> bool" where
  "looksLikePayment msg =
     test_i [''payment required'', ''402'', ''insufficient credit'', ''no credit''] msg"

text \<open>\<^verbatim>\<open>err instanceof Error ? err.message : String(err)\<close>.\<close>

fun message_of :: "thrown \<Rightarrow> string" where
  "message_of (ProviderError e) = err_message e"
| "message_of (OtherError m) = m"
| "message_of (NonError v) = v"

definition toProviderError :: "ProviderName \<Rightarrow> thrown \<Rightarrow> AIProviderError" where
  "toProviderError n err =
     (case err of
        ProviderError e \<Rightarrow> e
      | _ \<Rightarrow>
        (let msg = message_of err
         in new_AIProviderError n msg
              (if looksLikeRateLimit msg then Some 429
               else if looksLikeAuth msg then Some 401
               else if looksLikePayment msg then Some 402
               else None)
              (Some (if looksLikeAuth msg \<or> looksLikePayment msg then False else True))))"

section \<open>Provider ordering\<close>

text \<open>\<^verbatim>\<open>estimateTokens\<close> of \<^verbatim>\<open>token-estimator.ts\<close>.\<close>

definition estimateTokens :: "string \<Rightarrow> nat" where
  "estimateTokens text = (if text = [] then 0 else max 1 ((length text + 3) div 4))"

definition estimateCostUsd :: "('w, 'r) RoutedProvider \<Rightarrow> nat \<Rightarrow> rat" where
  "estimateCostUsd p tokens =
     (let per1k = (case cost_per_1k p of None \<Rightarrow> 0 | Some c \<Rightarrow> c)
      in (of_nat tokens / 1000) * per1k)"

text \<open>
  \<^verbatim>\<open>Array.prototype.sort\<close> with the comparator \<^verbatim>\<open>cost(a) - cost(b)\<close> is a stable sort
  by cost; \<open>sort_key\<close> is the stable insertion sort.
\<close>

text \<open>\<^verbatim>\<open>(process.env.AI_PROVIDER_STRATEGY || "cost_then_failover").toLowerCase()\<close>.\<close>

definition strategy_name :: "('w, 'r) ProviderRouter \<Rightarrow> string" where
  "strategy_name r =
     toLowerCase (case strategy r of None \<Rightarrow> ''cost_then_failover''
                  | Some s \<Rightarrow> if s = [] then ''cost_then_failover'' else s)"

definition rankProviders :: "nat \<Rightarrow> ('w, 'r) ProviderRouter \<Rightarrow> ('w, 'r) RoutedProvider list" where
  "rankProviders estTokens r =
     (if strategy_name r = ''fixed_order'' then providers r
      else sort_key (\<lambda>p. estimateCostUsd p estTokens) (providers r))"

section \<open>The failover loop\<close>

definition emit :: "event \<Rightarrow> ('w, 'r) ProviderRouter \<Rightarrow> ('w, 'r) ProviderRouter" where
  "emit e r = r\<lparr>trace := trace r @ [e]\<rparr>"

text \<open>
  How one pass through the body of the \<^verbatim>\<open>for\<close> loop ends: \<^verbatim>\<open>continue\<close> (with the
  value of \<^verbatim>\<open>lastErr\<close>), \<^verbatim>\<open>return result\<close>, or \<^verbatim>\<open>throw mapped\<close>.
\<close>

datatype 'r flow = Continue "thrown option" | Return 'r | Throw thrown

text \<open>The \<^verbatim>\<open>catch (err)\<close> block.\<close>

definition onCatch ::
    "'w clock \<Rightarrow> ('w, 'r) RoutedProvider \<Rightarrow> thrown \<Rightarrow> ('w, 'r) ProviderRouter
       \<Rightarrow> 'r flow \<times> ('w, 'r) ProviderRouter" where
  "onCatch clk c err r =
     (let mapped = toProviderError (name c) err;
          r1 = recordError clk (name c) mapped r;
          r2 = emit (LogProviderFailed (name c) (err_status mapped) (err_retryable mapped)
                 (err_message mapped)) r1;
          status = err_status mapped
      in if status = Some 401 \<or> status = Some 403
           then (Continue (Some err), markFailure (name c) (disable clk (name c) (authDisableMs r2) r2))
         else if status = Some 402
           then (Continue (Some err), markFailure (name c) (disable clk (name c) (paymentDisableMs r2) r2))
         else if status = Some 429
           then (Continue (Some err), markFailure (name c) (cooldown clk (name c) (rateLimitCooldownMs r2) r2))
         else if err_retryable mapped
           then (Continue (Some err), markFailure (name c) (cooldown clk (name c) (errorCooldownMs r2) r2))
         else (Throw (ProviderError mapped), r2))"

text \<open>
  The \<^verbatim>\<open>try\<close> block: the log line, the call of the provider (at the request being
  routed), and \<^verbatim>\<open>markSuccess\<close> or the \<^verbatim>\<open>catch\<close> block.
\<close>

definition tryProvider ::
    "'w clock \<Rightarrow> nat \<Rightarrow> ('w, 'r) RoutedProvider \<Rightarrow> QuotaState \<Rightarrow> ('w, 'r) ProviderRouter
       \<Rightarrow> 'r flow \<times> ('w, 'r) ProviderRouter" where
  "tryProvider clk estTokens c quota r =
     (let r1 = emit (LogRouting (name c) quota estTokens (estimateCostUsd c estTokens)) r;
          r2 = emit (Invoke (name c)) r1
      in case provider c (world r2) of
           (Inr result, w') \<Rightarrow> (Return result, markSuccess (name c) (r2\<lparr>world := w'\<rparr>))
         | (Inl err, w') \<Rightarrow> onCatch clk c err (r2\<lparr>world := w'\<rparr>))"

text \<open>The body of \<^verbatim>\<open>for (const c of candidates)\<close>.\<close>

definition iteration ::
    "'w clock \<Rightarrow> nat \<Rightarrow> ('w, 'r) RoutedProvider \<Rightarrow> thrown option \<Rightarrow> ('w, 'r) ProviderRouter
       \<Rightarrow> 'r flow \<times> ('w, 'r) ProviderRouter" where
  "iteration clk estTokens c lastErr r =
     (case isDisabled clk (name c) r of (dis, r1) \<Rightarrow>
        if dis then (Continue lastErr, r1)
        else (case isInCooldown clk (name c) r1 of (cool, r2) \<Rightarrow>
          if cool then (Continue lastErr, r2)
          else (case checkAndConsumeLocalQuota clk (name c) r2 of (quotaOk, r3) \<Rightarrow>
            (case getLocalQuotaState clk (name c) r3 of (quota, r4) \<Rightarrow>
               if \<not> quotaOk
               then (Continue lastErr,
                     cooldown clk (name c) (rateLimitCooldownMs r4) (emit (LogQuotaExceeded (name c) quota) r4))
               else tryProvider clk estTokens c quota r4))))"

text \<open>The two \<^verbatim>\<open>throw\<close> statements after the loop.\<close>

definition afterLoop :: "thrown option \<Rightarrow> thrown" where
  "afterLoop lastErr =
     (case lastErr of
        Some e \<Rightarrow> if instanceof_Error e then e else OtherError ''All AI providers failed''
      | None \<Rightarrow> OtherError ''All AI providers failed'')"

fun loop ::
    "'w clock \<Rightarrow> nat \<Rightarrow> ('w, 'r) RoutedProvider list \<Rightarrow> thrown option \<Rightarrow> ('w, 'r) ProviderRouter
       \<Rightarrow> (thrown + 'r) \<times> ('w, 'r) ProviderRouter" where
  "loop clk estTokens [] lastErr r = (Inl (afterLoop lastErr), r)"
| "loop clk estTokens (c # cs) lastErr r =
     (case iteration clk estTokens c lastErr r of
        (Continue lastErr', r') \<Rightarrow> loop clk estTokens cs lastErr' r'
      | (Return result, r') \<Rightarrow> (Inr result, r')
      | (Throw e, r') \<Rightarrow> (Inl e, r'))"

text \<open>
  \<^verbatim>\<open>analyzeData\<close>: \<open>prompt\<close> is what \<^verbatim>\<open>promptService.buildAnalysisPrompt\<close> returns
  for the request; \<open>Inl\<close> carries the thrown value.
\<close>

definition analyzeData ::
    "'w clock \<Rightarrow> string \<Rightarrow> ('w, 'r) ProviderRouter \<Rightarrow> (thrown + 'r) \<times> ('w, 'r) ProviderRouter" where
  "analyzeData clk prompt r =
     (let estTokens = estimateTokens prompt;
          candidates = rankProviders estTokens r
      in loop clk estTokens candidates None r)"

text \<open>The providers called, in order, among a list of events.\<close>

fun invoked :: "event list \<Rightarrow> ProviderName list" where
  "invoked [] = []"
| "invoked (Invoke n # es) = n # invoked es"
| "invoked (e # es) = invoked es"



section \<open>Sample instances\<close>

text \<open>
  A world that is only a counter of clock readings: the clock starts at 1000000 ms and
  advances by one millisecond per reading; the sample providers ignore the world.
\<close>

definition sample_clock :: "nat clock" where
  "sample_clock w = (1000000 + int w, Suc w)"

definition always_throws :: "ProviderName \<Rightarrow> rat option \<Rightarrow> thrown \<Rightarrow> (nat, string) RoutedProvider" where
  "always_throws n cost e = \<lparr>name = n, provider = (\<lambda>w. (Inl e, w)), cost_per_1k = cost\<rparr>"

definition always_returns :: "ProviderName \<Rightarrow> rat option \<Rightarrow> string \<Rightarrow> (nat, string) RoutedProvider" where
  "always_returns n cost x = \<lparr>name = n, provider = (\<lambda>w. (Inr x, w)), cost_per_1k = cost\<rparr>"

text \<open>The three providers of the registry with its default costs, in registration order.\<close>

definition three_providers :: "(nat, string) RoutedProvider list" where
  "three_providers =
     [always_returns OpenAI (Some (2 / 10000)) ''a'',
      always_returns DeepSeek (Some (1 / 10000)) ''b'',
      always_returns Claude (Some (25 / 100000)) ''c'']"

text \<open>The router the constructor builds in the default environment, in the sample world.\<close>

definition sample_router :: "(nat, string) RoutedProvider list \<Rightarrow> (nat, string) ProviderRouter" where
  "sample_router ps = (case new_ProviderRouter default_Env 0 ps of Inr r \<Rightarrow> r)"

text \<open>A clock that stands still: every reading falls in the same millisecond.\<close>

definition frozen_clock :: "nat clock" where
  "frozen_clock w = (1000000, Suc w)"

text \<open>A router whose only provider has failed once and is disabled for a day.\<close>

definition disabled_router :: "(nat, string) ProviderRouter" where
  "disabled_router =
     (sample_router [always_returns Claude None ''ok''])
       \<lparr>state := [Claude \<mapsto> \<lparr>cooldown_until_ms = 0, consecutive_failures = 1,
                               disabled_until_ms = 87400000, last_error = None\<rparr>]\<rparr>"

text \<open>A provider error with status 401, as the services build it from an HTTP response.\<close>

definition unauthorized :: AIProviderError where
  "unauthorized = new_AIProviderError Claude ''Claude error: invalid x-api-key'' (Some 401) (Some False)"

text \<open>A provider error that is neither retryable nor of a status the router fails over on.\<close>

definition bad_request :: AIProviderError where
  "bad_request = new_AIProviderError Claude ''Claude error: bad request'' (Some 400) (Some False)"


section \<open>The constructor registers every provider\<close>

lemmas ops_defs = isInCooldown_def cooldown_def isDisabled_def disable_def markSuccess_def
  markFailure_def recordError_def checkAndConsumeLocalQuota_def getLocalQuotaState_def emit_def

lemma fold_register_state:
  "state (fold register ps r) n =
     (if n \<in> name ` set ps then Some initial_ProviderState else state r n)"
  by (induction ps arbitrary: r) (auto simp: register_def)

lemma fold_register_localQuota:
  "localQuota (fold register ps r) n = (if n \<in> name ` set ps then Some [] else localQuota r n)"
  by (induction ps arbitrary: r) (auto simp: register_def)

lemma fold_register_fields:
  "providers (fold register ps r) = providers r \<and> world (fold register ps r) = world r"
  by (induction ps arbitrary: r) (auto simp: register_def)

text \<open>
  C10. The constructor throws exactly on the empty provider list. On a non-empty list it
  returns a router that keeps the list and holds, for every given provider, a health state
  with \<open>cooldown_until_ms = 0\<close>, \<open>disabled_until_ms = 0\<close>,
  \<open>consecutive_failures = 0\<close> and no last error, and an empty list of quota timestamps;
  such a provider is neither disabled nor in cooldown at any clock reading from 0 on.
\<close>

theorem constructor_spec:
  "(ps = [] \<longrightarrow> new_ProviderRouter env w ps =
       Inl (OtherError ''ProviderRouter requires at least one provider'')) \<and>
   (ps \<noteq> [] \<longrightarrow> (\<exists>r. new_ProviderRouter env w ps = Inr r \<and> providers r = ps \<and>
      (\<forall>p\<in>set ps.
         state r (name p) = Some \<lparr>cooldown_until_ms = 0, consecutive_failures = 0,
                                  disabled_until_ms = 0, last_error = None\<rparr> \<and>
         localQuota r (name p) = Some [] \<and>
         (0 \<le> fst (clk (world r)) \<longrightarrow>
            \<not> fst (isDisabled clk (name p) r) \<and> \<not> fst (isInCooldown clk (name p) r)))))"
proof (cases "ps = []")
  case True
  then show ?thesis by (simp add: new_ProviderRouter_def)
next
  case False
  define r0 :: "('a, 'b) ProviderRouter" where "r0 = \<lparr>providers = ps, state = Map.empty,
         rateLimitCooldownMs = AI_RL_COOLDOWN_MS env,
         errorCooldownMs = AI_ERR_COOLDOWN_MS env,
         authDisableMs = AI_AUTH_DISABLE_MS env,
         paymentDisableMs = AI_PAYMENT_DISABLE_MS env,
         localQuotaMax = AI_LOCAL_QUOTA_MAX env,
         localQuotaWindowMs = AI_LOCAL_QUOTA_WINDOW_MS env,
         localQuota = Map.empty,
         strategy = AI_PROVIDER_STRATEGY env,
         world = w, trace = []\<rparr>"
  define r where "r = fold register ps r0"
  have new: "new_ProviderRouter env w ps = Inr r"
    using False by (simp add: new_ProviderRouter_def r_def r0_def)
  have provs: "providers r = ps"
    by (simp add: r_def fold_register_fields) (simp add: r0_def)
  have each: "state r (name p) = Some initial_ProviderState \<and> localQuota r (name p) = Some []"
    if "p \<in> set ps" for p
    using that by (simp add: r_def fold_register_state fold_register_localQuota)
  have elig: "\<not> fst (isDisabled clk (name p) r) \<and> \<not> fst (isInCooldown clk (name p) r)"
    if "p \<in> set ps" "0 \<le> fst (clk (world r))" for p
    using each [OF that(1)] that(2)
    by (auto simp: isDisabled_def isInCooldown_def initial_ProviderState_def split: prod.splits)
  show ?thesis
    using False new provs each elig by (auto simp: initial_ProviderState_def)
qed

theorem constructor_spec_witness:
  "\<exists>r. new_ProviderRouter default_Env (0::nat) [always_returns Claude None ''ok''] = Inr r \<and>
       state r Claude = Some \<lparr>cooldown_until_ms = 0, consecutive_failures = 0,
                                  disabled_until_ms = 0, last_error = None\<rparr> \<and>
       localQuota r Claude = Some [] \<and>
       \<not> fst (isDisabled sample_clock Claude r) \<and> \<not> fst (isInCooldown sample_clock Claude r)"
  using constructor_spec [of "[always_returns Claude None ''ok'']" default_Env "0::nat" sample_clock]
  by (auto simp: always_returns_def sample_clock_def new_ProviderRouter_def)

section \<open>Error classification\<close>

lemma str_includes_sublist: "str_includes s p \<longleftrightarrow> sublist p s"
  by (induction s) (auto simp: sublist_Cons_right)

lemma test_i_sublist: "test_i alts msg \<longleftrightarrow> (\<exists>p\<in>set alts. sublist p (toLowerCase msg))"
  by (simp add: test_i_def list_ex_iff str_includes_sublist)

text \<open>
  C2 (amended). An \<^verbatim>\<open>AIProviderError\<close> passes through unchanged. Any other thrown value
  is classified from its message, matched case-insensitively: the status is 429 when a
  rate-limit indicator occurs, else 401 when an authorization indicator occurs, else 402
  when a payment indicator occurs, else undefined. The retryable flag is false exactly
  when an authorization or a payment indicator occurs in the message, whichever status
  won. A message containing \<open>insufficient credit\<close> is never retryable, and has status 402
  when it contains no rate-limit and no authorization indicator.
\<close>

theorem toProviderError_classification:
  "toProviderError n (ProviderError e) = e \<and>
   ((\<forall>e. err \<noteq> ProviderError e) \<longrightarrow>
      toProviderError n err =
        \<lparr>err_provider = n, err_message = message_of err,
         err_status = (if looksLikeRateLimit (message_of err) then Some 429
                       else if looksLikeAuth (message_of err) then Some 401
                       else if looksLikePayment (message_of err) then Some 402
                       else None),
         err_retryable = (\<not> (looksLikeAuth (message_of err) \<or> looksLikePayment (message_of err)))\<rparr>) \<and>
   (looksLikeRateLimit msg \<longleftrightarrow>
      (\<exists>p\<in>{''rate limit'', ''429''}. sublist p (toLowerCase msg))) \<and>
   (looksLikeAuth msg \<longleftrightarrow>
      (\<exists>p\<in>{''invalid api key'', ''unauthorized'', ''forbidden'', ''401'', ''403''}.
         sublist p (toLowerCase msg))) \<and>
   (looksLikePayment msg \<longleftrightarrow>
      (\<exists>p\<in>{''payment required'', ''402'', ''insufficient credit'', ''no credit''}.
         sublist p (toLowerCase msg))) \<and>
   ((\<forall>e. err \<noteq> ProviderError e) \<and> sublist ''insufficient credit'' (toLowerCase (message_of err)) \<longrightarrow>
      \<not> err_retryable (toProviderError n err) \<and>
      (\<not> looksLikeRateLimit (message_of err) \<and> \<not> looksLikeAuth (message_of err) \<longrightarrow>
         err_status (toProviderError n err) = Some 402))"
proof -
  have pass: "toProviderError n (ProviderError e) = e"
    by (simp add: toProviderError_def)
  have other: "toProviderError n err =
        \<lparr>err_provider = n, err_message = message_of err,
         err_status = (if looksLikeRateLimit (message_of err) then Some 429
                       else if looksLikeAuth (message_of err) then Some 401
                       else if looksLikePayment (message_of err) then Some 402
                       else None),
         err_retryable = (\<not> (looksLikeAuth (message_of err) \<or> looksLikePayment (message_of err)))\<rparr>"
    if "\<forall>e. err \<noteq> ProviderError e"
    using that by (cases err) (simp_all add: toProviderError_def new_AIProviderError_def)
  have rl: "looksLikeRateLimit msg \<longleftrightarrow>
      (\<exists>p\<in>{''rate limit'', ''429''}. sublist p (toLowerCase msg))"
    by (simp add: looksLikeRateLimit_def test_i_sublist)
  have au: "looksLikeAuth msg \<longleftrightarrow>
      (\<exists>p\<in>{''invalid api key'', ''unauthorized'', ''forbidden'', ''401'', ''403''}.
         sublist p (toLowerCase msg))"
    by (simp add: looksLikeAuth_def test_i_sublist)
  have pay: "looksLikePayment m \<longleftrightarrow>
      (\<exists>p\<in>{''payment required'', ''402'', ''insufficient credit'', ''no credit''}.
         sublist p (toLowerCase m))" for m
    by (simp add: looksLikePayment_def test_i_sublist)
  have credit: "\<not> err_retryable (toProviderError n err) \<and>
      (\<not> looksLikeRateLimit (message_of err) \<and> \<not> looksLikeAuth (message_of err) \<longrightarrow>
         err_status (toProviderError n err) = Some 402)"
    if "\<forall>e. err \<noteq> ProviderError e" "sublist ''insufficient credit'' (toLowerCase (message_of err))"
  proof -
    have "looksLikePayment (message_of err)"
      using that(2) unfolding pay by blast
    then show ?thesis by (simp add: other [OF that(1)])
  qed
  show ?thesis
    apply (intro conjI)
         apply (rule pass)
        apply (rule impI, erule other)
       apply (rule rl)
      apply (rule au)
     apply (rule pay)
    apply (rule impI, erule conjE, erule (1) credit)
    done
qed

theorem toProviderError_classification_witness:
  "sublist ''insufficient credit'' (toLowerCase ''Insufficient credit on account'') \<and>
   toProviderError Claude (OtherError ''Insufficient credit on account'') =
     \<lparr>err_provider = Claude, err_message = ''Insufficient credit on account'',
      err_status = Some 402, err_retryable = False\<rparr>"
proof -
  let ?m = "''Insufficient credit on account''"
  have sub: "sublist ''insufficient credit'' (toLowerCase ?m)" by code_simp
  have rl: "\<not> looksLikeRateLimit ?m" by code_simp
  have au: "\<not> looksLikeAuth ?m" by code_simp
  have ne: "\<forall>e. OtherError ?m \<noteq> ProviderError e" by simp
  note inst = toProviderError_classification
      [where n = Claude and e = unauthorized and err = "OtherError ?m" and msg = ?m]
  from inst [THEN conjunct2, THEN conjunct2, THEN conjunct2, THEN conjunct2, THEN conjunct2,
      THEN mp, OF conjI, OF ne] sub rl au
  have "\<not> err_retryable (toProviderError Claude (OtherError ?m)) \<and>
        err_status (toProviderError Claude (OtherError ?m)) = Some 402"
    by simp
  moreover from inst [THEN conjunct2, THEN conjunct1, THEN mp, OF ne]
  have "err_provider (toProviderError Claude (OtherError ?m)) = Claude \<and>
        err_message (toProviderError Claude (OtherError ?m)) = ?m"
    by simp
  ultimately show ?thesis using sub by (cases "toProviderError Claude (OtherError ?m)") simp
qed

text \<open>
  C2 fails as stated: a message that contains \<open>insufficient credit\<close> after a rate-limit
  indicator gets status 429, and is not retryable although its status is the rate-limit one.
\<close>

theorem insufficient_credit_not_402:
  "str_includes (toLowerCase ''rate limit reached: insufficient credit'') ''insufficient credit'' \<and>
   toProviderError OpenAI (OtherError ''rate limit reached: insufficient credit'') =
     \<lparr>err_provider = OpenAI, err_message = ''rate limit reached: insufficient credit'',
      err_status = Some 429, err_retryable = False\<rparr>"
  by code_simp

section \<open>Ranking\<close>


lemma strategy_name_default:
  "strategy r = None \<or> strategy r = Some ''cost_then_failover'' \<Longrightarrow>
     strategy_name r = ''cost_then_failover''"
  by (auto simp: strategy_name_def toLowerCase_def toLowerCase_char_def)



lemma fold_register_strategy: "strategy (fold register ps r) = strategy r"
  by (induction ps arbitrary: r) (auto simp: register_def)

lemma providers_sample_router: "ps \<noteq> [] \<Longrightarrow> providers (sample_router ps) = ps"
  by (simp add: sample_router_def new_ProviderRouter_def fold_register_fields)

lemma strategy_sample_router: "ps \<noteq> [] \<Longrightarrow> strategy (sample_router ps) = None"
  by (simp add: sample_router_def new_ProviderRouter_def default_Env_def fold_register_strategy)


section \<open>The provider calls of one invocation\<close>

lemma invoked_append: "invoked (xs @ ys) = invoked xs @ invoked ys"
  by (induction xs rule: invoked.induct) auto

lemma onCatch_trace:
  "onCatch clk c err r = (f, r') \<Longrightarrow> \<exists>new. trace r' = trace r @ new \<and> invoked new = []"
  by (auto simp: onCatch_def Let_def ops_defs split: if_splits option.splits prod.splits)

lemma tryProvider_trace:
  "tryProvider clk est c q r = (f, r') \<Longrightarrow>
     \<exists>new. trace r' = trace r @ new \<and> invoked new = [name c]"
  by (auto simp: tryProvider_def Let_def emit_def markSuccess_def
      split: prod.splits sum.splits option.splits dest!: onCatch_trace)

lemma iteration_trace:
  "iteration clk est c le r = (f, r') \<Longrightarrow>
     \<exists>new. trace r' = trace r @ new \<and> (invoked new = [] \<or> invoked new = [name c])"
  by (auto simp: iteration_def Let_def ops_defs
      split: if_splits option.splits prod.splits dest!: tryProvider_trace)

lemma loop_trace:
  "loop clk est cs le r = (res, r') \<Longrightarrow>
     \<exists>new. trace r' = trace r @ new \<and> subseq (invoked new) (map name cs)"
proof (induction cs arbitrary: le r)
  case Nil
  then show ?case by simp
next
  case (Cons c cs)
  obtain f r1 where it: "iteration clk est c le r = (f, r1)"
    by (cases "iteration clk est c le r")
  from iteration_trace [OF it] obtain new1 where
    new1: "trace r1 = trace r @ new1" "invoked new1 = [] \<or> invoked new1 = [name c]"
    by blast
  show ?case
  proof (cases f)
    case (Continue le')
    with Cons.prems it have "loop clk est cs le' r1 = (res, r')" by simp
    from Cons.IH [OF this] obtain new2 where
      new2: "trace r' = trace r1 @ new2" "subseq (invoked new2) (map name cs)"
      by blast
    have "trace r' = trace r @ (new1 @ new2)" using new1 new2 by simp
    moreover have "subseq (invoked (new1 @ new2)) (map name (c # cs))"
      using new1(2) new2(2) by (auto simp: invoked_append)
    ultimately show ?thesis by blast
  next
    case (Return x)
    with Cons.prems it have "r' = r1" by simp
    then show ?thesis using new1 by (intro exI [of _ new1]) auto
  next
    case (Throw e)
    with Cons.prems it have "r' = r1" by simp
    then show ?thesis using new1 by (intro exI [of _ new1]) auto
  qed
qed





lemma analyzeData_loop:
  "analyzeData clk prompt r =
     loop clk (estimateTokens prompt) (rankProviders (estimateTokens prompt) r) None r"
  by (simp add: analyzeData_def Let_def)



section \<open>The health check\<close>

lemma onCatch_frame:
  "onCatch clk c err r = (f, r') \<Longrightarrow> n \<noteq> name c \<Longrightarrow>
     state r' n = state r n \<and> localQuota r' n = localQuota r n"
  by (auto simp: onCatch_def Let_def ops_defs split: if_splits option.splits prod.splits)

lemma tryProvider_frame:
  "tryProvider clk est c q r = (f, r') \<Longrightarrow> n \<noteq> name c \<Longrightarrow>
     state r' n = state r n \<and> localQuota r' n = localQuota r n"
  by (auto simp: tryProvider_def Let_def emit_def markSuccess_def
      split: prod.splits sum.splits option.splits dest!: onCatch_frame)

lemma iteration_frame:
  "iteration clk est c le r = (f, r') \<Longrightarrow> n \<noteq> name c \<Longrightarrow>
     state r' n = state r n \<and> localQuota r' n = localQuota r n"
  by (auto simp: iteration_def Let_def ops_defs
      split: if_splits option.splits prod.splits dest!: tryProvider_frame)

lemma iteration_health_check:
  assumes "state r (name c) = Some s" "clk (world r) = (t1, w1)" "clk w1 = (t2, w2)"
    and "iteration clk est c le r = (f, r')"
  shows "(t1 < disabled_until_ms s \<or> t2 < cooldown_until_ms s \<longrightarrow>
            f = Continue le \<and> r' = r\<lparr>world := (if t1 < disabled_until_ms s then w1 else w2)\<rparr>) \<and>
         ((trace r' = trace r) = (t1 < disabled_until_ms s \<or> t2 < cooldown_until_ms s))"
proof (cases "t1 < disabled_until_ms s \<or> t2 < cooldown_until_ms s")
  case True
  then show ?thesis
    using assms by (auto simp: iteration_def isDisabled_def isInCooldown_def)
next
  case False
  define r2 where "r2 = r\<lparr>world := w2\<rparr>"
  obtain ok r3 where q: "checkAndConsumeLocalQuota clk (name c) r2 = (ok, r3)"
    by (cases "checkAndConsumeLocalQuota clk (name c) r2")
  obtain qs r4 where g: "getLocalQuotaState clk (name c) r3 = (qs, r4)"
    by (cases "getLocalQuotaState clk (name c) r3")
  have tr: "trace r4 = trace r"
    using q g by (auto simp: r2_def checkAndConsumeLocalQuota_def getLocalQuotaState_def Let_def
        split: prod.splits if_splits)
  have it: "iteration clk est c le r =
             (if \<not> ok then (Continue le,
                     cooldown clk (name c) (rateLimitCooldownMs r4) (emit (LogQuotaExceeded (name c) qs) r4))
               else tryProvider clk est c qs r4)"
    using False assms(1-3) q g
    by (simp add: iteration_def isDisabled_def isInCooldown_def r2_def)
  have "trace r' \<noteq> trace r"
  proof (cases ok)
    case True
    with it assms(4) have "tryProvider clk est c qs r4 = (f, r')" by simp
    from tryProvider_trace [OF this] tr show ?thesis by auto
  next
    case False
    with it assms(4) have "r' = cooldown clk (name c) (rateLimitCooldownMs r4) (emit (LogQuotaExceeded (name c) qs) r4)"
      by simp
    then show ?thesis using tr by (auto simp: cooldown_def emit_def split: option.splits prod.splits)
  qed
  then show ?thesis using False by simp
qed

lemma iteration_skipped:
  assumes "state r (name c) = Some s"
    and "(\<forall>w. fst (clk w) < disabled_until_ms s) \<or> (\<forall>w. fst (clk w) < cooldown_until_ms s)"
    and "iteration clk est c le r = (f, r')"
  shows "f = Continue le \<and> state r' = state r \<and> trace r' = trace r"
proof -
  obtain t1 w1 where 1: "clk (world r) = (t1, w1)" by (cases "clk (world r)")
  obtain t2 w2 where 2: "clk w1 = (t2, w2)" by (cases "clk w1")
  have "t1 < disabled_until_ms s \<or> t2 < cooldown_until_ms s"
    using assms(2) 1 2 by (metis fst_conv)
  with iteration_health_check [OF assms(1) 1 2 assms(3)] show ?thesis by auto
qed

lemma loop_never_invokes:
  assumes "state r n = Some s"
    and "(\<forall>w. fst (clk w) < disabled_until_ms s) \<or> (\<forall>w. fst (clk w) < cooldown_until_ms s)"
    and "loop clk est cs le r = (res, r')"
  shows "state r' n = Some s \<and> n \<notin> set (invoked (drop (length (trace r)) (trace r')))"
  using assms(1,3)
proof (induction cs arbitrary: le r)
  case Nil
  then show ?case by simp
next
  case (Cons c cs)
  obtain f r1 where it: "iteration clk est c le r = (f, r1)"
    by (cases "iteration clk est c le r")
  from iteration_trace [OF it] obtain new1 where
    new1: "trace r1 = trace r @ new1" "invoked new1 = [] \<or> invoked new1 = [name c]"
    by blast
  have step: "state r1 n = Some s \<and> n \<notin> set (invoked new1) \<and> (name c = n \<longrightarrow> f = Continue le)"
  proof (cases "name c = n")
    case True
    with Cons.prems(1) have "state r (name c) = Some s" by simp
    from iteration_skipped [OF this assms(2) it] new1 Cons.prems(1) show ?thesis by simp
  next
    case False
    with iteration_frame [OF it, of n] new1(2) Cons.prems(1) show ?thesis by auto
  qed
  show ?case
  proof (cases f)
    case (Continue le')
    with Cons.prems it have l: "loop clk est cs le' r1 = (res, r')" by simp
    from loop_trace [OF l] obtain new2 where new2: "trace r' = trace r1 @ new2" by blast
    from Cons.IH [OF _ l] step have "state r' n = Some s"
      "n \<notin> set (invoked (drop (length (trace r1)) (trace r')))" by simp_all
    then show ?thesis using new1 new2 step by (simp add: invoked_append)
  next
    case (Return x)
    with Cons.prems it have "r' = r1" by simp
    then show ?thesis using new1 step by simp
  next
    case (Throw e)
    with Cons.prems it have "r' = r1" by simp
    then show ?thesis using new1 step by simp
  qed
qed

text \<open>
  C5. When a candidate with a health state is considered, \<^verbatim>\<open>isDisabled\<close> compares one
  clock reading with \<open>disabled_until_ms\<close> and, if that passes, \<^verbatim>\<open>isInCooldown\<close>
  compares the next reading with \<open>cooldown_until_ms\<close>. If either deadline is still in
  the future the pass is a \<^verbatim>\<open>continue\<close> that changes nothing but the clock (no event,
  no call, \<^verbatim>\<open>lastErr\<close> kept); the candidate gets past the health check (an event is
  emitted for it) exactly when both readings are at or past their deadlines. Over a whole
  invocation, a provider one of whose deadlines is later than every clock reading is not
  called and keeps its health state.
\<close>

theorem ineligible_never_invoked:
  "(state r (name c) = Some s \<and> clk (world r) = (t1, w1) \<and> clk w1 = (t2, w2) \<and>
    iteration clk est c le r = (f, r1) \<longrightarrow>
      (t1 < disabled_until_ms s \<or> t2 < cooldown_until_ms s \<longrightarrow>
         f = Continue le \<and> r1 = r\<lparr>world := (if t1 < disabled_until_ms s then w1 else w2)\<rparr>) \<and>
      ((trace r1 = trace r) = (t1 < disabled_until_ms s \<or> t2 < cooldown_until_ms s)) \<and>
      fst (isDisabled clk (name c) r) = (t1 < disabled_until_ms s) \<and>
      fst (isInCooldown clk (name c) (r\<lparr>world := w1\<rparr>)) = (t2 < cooldown_until_ms s)) \<and>
   (state r n = Some s' \<and>
    ((\<forall>w. fst (clk w) < disabled_until_ms s') \<or> (\<forall>w. fst (clk w) < cooldown_until_ms s')) \<and>
    analyzeData clk prompt r = (res, r') \<longrightarrow>
      state r' n = Some s' \<and> n \<notin> set (invoked (drop (length (trace r)) (trace r'))))"
proof (intro conjI impI; (elim conjE)?)
  assume a: "state r (name c) = Some s" "clk (world r) = (t1, w1)" "clk w1 = (t2, w2)"
    "iteration clk est c le r = (f, r1)"
  from iteration_health_check [OF a]
  show "t1 < disabled_until_ms s \<or> t2 < cooldown_until_ms s \<Longrightarrow> f = Continue le"
    "t1 < disabled_until_ms s \<or> t2 < cooldown_until_ms s \<Longrightarrow>
       r1 = r\<lparr>world := (if t1 < disabled_until_ms s then w1 else w2)\<rparr>"
    "(trace r1 = trace r) = (t1 < disabled_until_ms s \<or> t2 < cooldown_until_ms s)"
    by blast+
  show "fst (isDisabled clk (name c) r) = (t1 < disabled_until_ms s)"
    using a by (simp add: isDisabled_def)
  show "fst (isInCooldown clk (name c) (r\<lparr>world := w1\<rparr>)) = (t2 < cooldown_until_ms s)"
    using a by (simp add: isInCooldown_def)
next
  assume b: "state r n = Some s'"
    "(\<forall>w. fst (clk w) < disabled_until_ms s') \<or> (\<forall>w. fst (clk w) < cooldown_until_ms s')"
    "analyzeData clk prompt r = (res, r')"
  from loop_never_invokes [OF b(1,2) b(3) [unfolded analyzeData_loop]]
  show "state r' n = Some s'" "n \<notin> set (invoked (drop (length (trace r)) (trace r')))"
    by simp_all
qed

theorem ineligible_never_invoked_witness:
  "fst (iteration frozen_clock 1 (always_returns Claude None ''ok'') None disabled_router) = Continue None \<and>
   Claude \<notin> set (invoked (drop (length (trace disabled_router))
      (trace (snd (analyzeData frozen_clock ''hi'' disabled_router)))))"
proof -
  let ?s = "\<lparr>cooldown_until_ms = 0, consecutive_failures = 1,
             disabled_until_ms = 87400000, last_error = None\<rparr>"
  have st: "state disabled_router (name (always_returns Claude None ''ok'')) = Some ?s"
    "state disabled_router Claude = Some ?s"
    by (simp_all add: disabled_router_def always_returns_def)
  have w: "world disabled_router = 0"
    by (simp add: disabled_router_def sample_router_def new_ProviderRouter_def register_def)
  have c1: "frozen_clock (world disabled_router) = (1000000, 1)"
    by (simp add: w frozen_clock_def)
  have c2: "frozen_clock 1 = (1000000, 2)"
    by (simp add: frozen_clock_def)
  have fut: "\<forall>w. fst (frozen_clock w) < 87400000"
    by (simp add: frozen_clock_def)
  note inst = ineligible_never_invoked [where clk = frozen_clock and r = disabled_router
      and c = "always_returns Claude None ''ok''" and s = ?s and s' = ?s and n = Claude
      and ?t1.0 = 1000000 and ?w1.0 = 1 and ?t2.0 = 1000000 and ?w2.0 = 2
      and est = 1 and le = None and prompt = "''hi''"
      and f = "fst (iteration frozen_clock 1 (always_returns Claude None ''ok'') None disabled_router)"
      and ?r1.0 = "snd (iteration frozen_clock 1 (always_returns Claude None ''ok'') None disabled_router)"
      and res = "fst (analyzeData frozen_clock ''hi'' disabled_router)"
      and r' = "snd (analyzeData frozen_clock ''hi'' disabled_router)"]
  from inst st c1 c2 fut show ?thesis by simp
qed

section \<open>The outcome of a provider call\<close>

lemma tryProvider_failure:
  assumes "provider c (world r) = (Inl err, w')" "state r (name c) = Some s"
    and "tryProvider clk est c q r = (f, r')"
    and "m = toProviderError (name c) err"
  shows "\<exists>s' t. state r' (name c) = Some s' \<and>
           last_error s' = Some \<lparr>le_status = err_status m, le_message = err_message m, le_at = t\<rparr> \<and>
           (if err_status m = Some 401 \<or> err_status m = Some 403 then
              f = Continue (Some err) \<and> consecutive_failures s' = consecutive_failures s + 1 \<and>
              cooldown_until_ms s' = cooldown_until_ms s \<and>
              (\<exists>w. disabled_until_ms s' = max (disabled_until_ms s) (fst (clk w) + authDisableMs r))
            else if err_status m = Some 402 then
              f = Continue (Some err) \<and> consecutive_failures s' = consecutive_failures s + 1 \<and>
              cooldown_until_ms s' = cooldown_until_ms s \<and>
              (\<exists>w. disabled_until_ms s' = max (disabled_until_ms s) (fst (clk w) + paymentDisableMs r))
            else if err_status m = Some 429 then
              f = Continue (Some err) \<and> consecutive_failures s' = consecutive_failures s + 1 \<and>
              disabled_until_ms s' = disabled_until_ms s \<and>
              (\<exists>w. cooldown_until_ms s' = max (cooldown_until_ms s) (fst (clk w) + rateLimitCooldownMs r))
            else if err_retryable m then
              f = Continue (Some err) \<and> consecutive_failures s' = consecutive_failures s + 1 \<and>
              disabled_until_ms s' = disabled_until_ms s \<and>
              (\<exists>w. cooldown_until_ms s' = max (cooldown_until_ms s) (fst (clk w) + errorCooldownMs r))
            else f = Throw (ProviderError m) \<and>
              cooldown_until_ms s' = cooldown_until_ms s \<and> disabled_until_ms s' = disabled_until_ms s)"
proof -
  define r0 where "r0 = r\<lparr>trace := trace r @ [LogRouting (name c) q est (estimateCostUsd c est),
      Invoke (name c)], world := w'\<rparr>"
  have tp: "tryProvider clk est c q r = onCatch clk c err r0"
    using assms(1) by (simp add: tryProvider_def Let_def emit_def r0_def)
  obtain t1 w1 where c1: "clk w' = (t1, w1)" by (cases "clk w'")
  obtain t2 w2 where c2: "clk w1 = (t2, w2)" by (cases "clk w1")
  have t2: "t2 = fst (clk w1)" using c2 by simp
  define s1 where "s1 = s\<lparr>last_error := Some \<lparr>le_status = err_status m, le_message = err_message m, le_at = t1\<rparr>\<rparr>"
  define r2 where "r2 = r0\<lparr>state := (state r)(name c \<mapsto> s1), world := w1,
     trace := trace r0 @ [LogProviderFailed (name c) (err_status m) (err_retryable m) (err_message m)]\<rparr>"
  have rec: "emit (LogProviderFailed (name c) (err_status m) (err_retryable m) (err_message m))
               (recordError clk (name c) m r0) = r2"
    using assms(2) c1 by (simp add: recordError_def emit_def r0_def r2_def s1_def)
  have oc: "onCatch clk c err r0 =
      (if err_status m = Some 401 \<or> err_status m = Some 403
           then (Continue (Some err), markFailure (name c) (disable clk (name c) (authDisableMs r2) r2))
         else if err_status m = Some 402
           then (Continue (Some err), markFailure (name c) (disable clk (name c) (paymentDisableMs r2) r2))
         else if err_status m = Some 429
           then (Continue (Some err), markFailure (name c) (cooldown clk (name c) (rateLimitCooldownMs r2) r2))
         else if err_retryable m
           then (Continue (Some err), markFailure (name c) (cooldown clk (name c) (errorCooldownMs r2) r2))
         else (Throw (ProviderError m), r2))"
    unfolding onCatch_def Let_def assms(4) [symmetric] rec by simp
  have dis: "state (markFailure (name c) (disable clk (name c) ms r2)) (name c) =
       Some (s1\<lparr>disabled_until_ms := max (disabled_until_ms s) (fst (clk w1) + ms),
                consecutive_failures := consecutive_failures s + 1\<rparr>)" for ms
    using c2 by (simp add: markFailure_def disable_def r2_def s1_def)
  have cool: "state (markFailure (name c) (cooldown clk (name c) ms r2)) (name c) =
       Some (s1\<lparr>cooldown_until_ms := max (cooldown_until_ms s) (fst (clk w1) + ms),
                consecutive_failures := consecutive_failures s + 1\<rparr>)" for ms
    using c2 by (simp add: markFailure_def cooldown_def r2_def s1_def)
  have cfg: "authDisableMs r2 = authDisableMs r" "paymentDisableMs r2 = paymentDisableMs r"
    "rateLimitCooldownMs r2 = rateLimitCooldownMs r" "errorCooldownMs r2 = errorCooldownMs r"
    "state r2 (name c) = Some s1"
    by (simp_all add: r2_def r0_def)
  have fr: "f = fst (onCatch clk c err r0)" "r' = snd (onCatch clk c err r0)"
    using assms(3) tp by simp_all
  show ?thesis
    unfolding fr oc by (auto simp: dis cool cfg s1_def)
qed

section \<open>Running through all candidates\<close>






section \<open>The terminal error\<close>

lemma fold_register_eq:
  "fold register ps r =
     r\<lparr>state := (\<lambda>n. if n \<in> name ` set ps then Some initial_ProviderState else state r n),
       localQuota := (\<lambda>n. if n \<in> name ` set ps then Some [] else localQuota r n)\<rparr>"
  by (induction ps arbitrary: r) (auto simp: register_def fun_eq_iff)

lemma sample_router_eq:
  "ps \<noteq> [] \<Longrightarrow> sample_router ps =
     \<lparr>providers = ps,
      state = (\<lambda>n. if n \<in> name ` set ps then Some initial_ProviderState else None),
      rateLimitCooldownMs = 60000, errorCooldownMs = 15000,
      authDisableMs = 86400000, paymentDisableMs = 86400000,
      localQuotaMax = 5, localQuotaWindowMs = 60000,
      localQuota = (\<lambda>n. if n \<in> name ` set ps then Some [] else None),
      strategy = None, world = 0, trace = []\<rparr>"
  by (simp add: sample_router_def new_ProviderRouter_def fold_register_eq default_Env_def fun_eq_iff)




section \<open>Failure bookkeeping\<close>

text \<open>
  C8 (amended). When the call of a provider that has a health state throws, the router
  classifies the thrown value and records status, message and time of the classified error
  as that provider's \<open>last_error\<close>, whatever the classification. When the
  classified status is 401, 403, 402 or 429, or the classified error is retryable, the pass
  ends with \<^verbatim>\<open>continue\<close>, \<^verbatim>\<open>lastErr\<close> is the thrown value, and the
  provider's \<open>consecutive_failures\<close> has grown by one; otherwise the classified error is
  thrown.
\<close>

theorem failure_recorded:
  assumes "provider c (world r) = (Inl err, w')" "state r (name c) = Some s"
    and "tryProvider clk est c q r = (f, r')"
  shows "\<exists>s' t. state r' (name c) = Some s' \<and>
           last_error s' = Some \<lparr>le_status = err_status (toProviderError (name c) err),
                                 le_message = err_message (toProviderError (name c) err), le_at = t\<rparr> \<and>
           (if err_status (toProviderError (name c) err) \<in> {Some 401, Some 403, Some 402, Some 429} \<or>
               err_retryable (toProviderError (name c) err)
            then f = Continue (Some err) \<and> consecutive_failures s' = consecutive_failures s + 1
            else f = Throw (ProviderError (toProviderError (name c) err)))"
proof -
  from tryProvider_failure [OF assms refl]
  obtain s' t where "state r' (name c) = Some s'"
    "last_error s' = Some \<lparr>le_status = err_status (toProviderError (name c) err),
                                 le_message = err_message (toProviderError (name c) err), le_at = t\<rparr>"
    "if err_status (toProviderError (name c) err) \<in> {Some 401, Some 403, Some 402, Some 429} \<or>
               err_retryable (toProviderError (name c) err)
            then f = Continue (Some err) \<and> consecutive_failures s' = consecutive_failures s + 1
            else f = Throw (ProviderError (toProviderError (name c) err))"
    by (auto split: if_splits)
  then show ?thesis by blast
qed

theorem failure_recorded_witness:
  "\<exists>s'. state (snd (tryProvider sample_clock 1 (always_throws Claude None (NonError ''ECONNRESET''))
            \<lparr>used = 1, max_q = 5, window_ms = 60000\<rparr>
            (sample_router [always_throws Claude None (NonError ''ECONNRESET'')]))) Claude = Some s' \<and>
        map_option le_message (last_error s') = Some ''ECONNRESET'' \<and> consecutive_failures s' = 1"
proof -
  let ?c = "always_throws Claude None (NonError ''ECONNRESET'')"
  let ?R = "sample_router [?c]"
  let ?q = "\<lparr>used = 1, max_q = 5, window_ms = 60000\<rparr>"
  have p: "provider ?c (world ?R) = (Inl (NonError ''ECONNRESET''), 0)"
    by (simp add: always_throws_def sample_router_eq)
  have st: "state ?R (name ?c) = Some initial_ProviderState"
    by (simp add: sample_router_eq)
  have m: "toProviderError (name ?c) (NonError ''ECONNRESET'') =
      \<lparr>err_provider = Claude, err_message = ''ECONNRESET'', err_status = None, err_retryable = True\<rparr>"
    by code_simp
  have n: "name ?c = Claude" by (simp add: always_throws_def)
  from failure_recorded [OF p st surjective_pairing, of sample_clock 1 ?q]
  show ?thesis unfolding m unfolding n by (auto simp: initial_ProviderState_def)
qed

text \<open>
  C8 fails as stated: when the provider's error is not retryable and has none of the
  failover statuses, the router records the error and throws it, and the counter of
  consecutive failures stays as it was.
\<close>

theorem abort_not_counted:
  "fst (analyzeData sample_clock ''hi''
          (sample_router [always_throws Claude None (ProviderError bad_request)])) =
     Inl (ProviderError \<lparr>err_provider = Claude, err_message = ''Claude error: bad request'',
                          err_status = Some 400, err_retryable = False\<rparr>) \<and>
   invoked (trace (snd (analyzeData sample_clock ''hi''
          (sample_router [always_throws Claude None (ProviderError bad_request)])))) = [Claude] \<and>
   map_option consecutive_failures
     (state (sample_router [always_throws Claude None (ProviderError bad_request)]) Claude) = Some 0 \<and>
   map_option consecutive_failures
     (state (snd (analyzeData sample_clock ''hi''
        (sample_router [always_throws Claude None (ProviderError bad_request)]))) Claude) = Some 0 \<and>
   map_option last_error
     (state (snd (analyzeData sample_clock ''hi''
        (sample_router [always_throws Claude None (ProviderError bad_request)]))) Claude) =
     Some (Some \<lparr>le_status = Some 400, le_message = ''Claude error: bad request'', le_at = 1000004\<rparr>)"
  by code_simp

section \<open>The passes of the loop\<close>

lemma onCatch_not_Return: "onCatch clk c err r \<noteq> (Return x, r')"
  by (simp add: onCatch_def Let_def)

lemma tryProvider_Return:
  assumes "tryProvider clk est c q r = (Return x, r')"
  shows "\<exists>w'. provider c (world r) = (Inr x, w') \<and>
           r' = markSuccess (name c) (r\<lparr>trace := trace r @
                  [LogRouting (name c) q est (estimateCostUsd c est), Invoke (name c)], world := w'\<rparr>)"
proof -
  obtain y w' where p: "provider c (world r) = (y, w')" by (cases "provider c (world r)")
  show ?thesis
  proof (cases y)
    case (Inl err)
    with assms p show ?thesis
      by (simp add: tryProvider_def Let_def emit_def onCatch_not_Return)
  next
    case (Inr res)
    with assms p show ?thesis
      by (auto simp: tryProvider_def Let_def emit_def)
  qed
qed

lemma iteration_cases:
  assumes "iteration clk est c le r = (f, r')"
  shows "(f = Continue le \<and> (\<exists>w. r' = r\<lparr>world := w\<rparr>)) \<or>
         (\<exists>q lq w. f = Continue le \<and>
            r' = cooldown clk (name c) (rateLimitCooldownMs r)
                   (emit (LogQuotaExceeded (name c) q) (r\<lparr>localQuota := lq, world := w\<rparr>))) \<or>
         (\<exists>q lq w. tryProvider clk est c q (r\<lparr>localQuota := lq, world := w\<rparr>) = (f, r'))"
  using assms
  by (auto simp: iteration_def isDisabled_def isInCooldown_def checkAndConsumeLocalQuota_def
      getLocalQuotaState_def Let_def split: if_splits option.splits prod.splits)

section \<open>Success\<close>

lemma iteration_Return:
  assumes "iteration clk est c le r = (Return x, r')"
  shows "\<exists>q lq w w'. provider c w = (Inr x, w') \<and>
           r' = markSuccess (name c) (r\<lparr>localQuota := lq,
                  trace := trace r @ [LogRouting (name c) q est (estimateCostUsd c est), Invoke (name c)],
                  world := w'\<rparr>)"
proof -
  from iteration_cases [OF assms] obtain q lq w where
    "tryProvider clk est c q (r\<lparr>localQuota := lq, world := w\<rparr>) = (Return x, r')"
    by auto
  from tryProvider_Return [OF this] obtain w' where
    "provider c w = (Inr x, w')"
    "r' = markSuccess (name c) (r\<lparr>localQuota := lq,
                  trace := trace r @ [LogRouting (name c) q est (estimateCostUsd c est), Invoke (name c)],
                  world := w'\<rparr>)"
    by auto
  then show ?thesis by blast
qed

text \<open>
  C7. When the call of a provider returns, the \<^verbatim>\<open>try\<close> block ends with
  \<^verbatim>\<open>return result\<close> after \<^verbatim>\<open>markSuccess\<close>. A pass of the loop that returns does so
  because the provider returned that result; it makes \<^verbatim>\<open>analyzeData\<close> return at once
  with the router as that pass leaves it, whatever candidates remain; the pass called this
  candidate and no other; the health state of every other provider is as before the pass;
  and the candidate's own state has \<open>consecutive_failures = 0\<close> and
  \<open>cooldown_until_ms = 0\<close>, with \<open>disabled_until_ms\<close> (and \<open>last_error\<close>)
  unchanged.
\<close>

theorem success_returns_immediately:
  "(provider c (world r) = (Inr x, w') \<and> tryProvider clk est c q r = (f, r1) \<longrightarrow>
      f = Return x \<and>
      r1 = markSuccess (name c) (r\<lparr>trace := trace r @
             [LogRouting (name c) q est (estimateCostUsd c est), Invoke (name c)], world := w'\<rparr>)) \<and>
   (iteration clk est c le r = (Return x, r') \<longrightarrow>
      loop clk est (c # cs) le r = (Inr x, r') \<and>
      (\<exists>w. fst (provider c w) = Inr x) \<and>
      invoked (drop (length (trace r)) (trace r')) = [name c] \<and>
      (\<forall>n. n \<noteq> name c \<longrightarrow> state r' n = state r n) \<and>
      (state r (name c) = None \<longrightarrow> state r' (name c) = None) \<and>
      (\<forall>s. state r (name c) = Some s \<longrightarrow>
         state r' (name c) = Some (s\<lparr>consecutive_failures := 0, cooldown_until_ms := 0\<rparr>) \<and>
         map_option disabled_until_ms (state r' (name c)) = Some (disabled_until_ms s)))"
proof (intro conjI impI; (elim conjE)?)
  assume "provider c (world r) = (Inr x, w')" "tryProvider clk est c q r = (f, r1)"
  then show "f = Return x"
    "r1 = markSuccess (name c) (r\<lparr>trace := trace r @
             [LogRouting (name c) q est (estimateCostUsd c est), Invoke (name c)], world := w'\<rparr>)"
    by (simp_all add: tryProvider_def Let_def emit_def)
next
  assume it: "iteration clk est c le r = (Return x, r')"
  then show "loop clk est (c # cs) le r = (Inr x, r')" by simp
  from iteration_Return [OF it] obtain q lq w w' where
    p: "provider c w = (Inr x, w')" and
    r': "r' = markSuccess (name c) (r\<lparr>localQuota := lq,
                  trace := trace r @ [LogRouting (name c) q est (estimateCostUsd c est), Invoke (name c)],
                  world := w'\<rparr>)"
    by blast
  from p show "\<exists>w. fst (provider c w) = Inr x" by (metis fst_conv)
  show "invoked (drop (length (trace r)) (trace r')) = [name c]"
    unfolding r' by (simp add: markSuccess_def split: option.splits)
  show "\<forall>n. n \<noteq> name c \<longrightarrow> state r' n = state r n"
    unfolding r' by (simp add: markSuccess_def split: option.splits)
  show "state r' (name c) = None" if "state r (name c) = None"
    using that unfolding r' by (simp add: markSuccess_def split: option.splits)
  show "\<forall>s. state r (name c) = Some s \<longrightarrow>
         state r' (name c) = Some (s\<lparr>consecutive_failures := 0, cooldown_until_ms := 0\<rparr>) \<and>
         map_option disabled_until_ms (state r' (name c)) = Some (disabled_until_ms s)"
    unfolding r' by (simp add: markSuccess_def split: option.splits)
qed

theorem success_returns_immediately_witness:
  "analyzeData sample_clock ''hi'' (sample_router three_providers) =
     (Inr ''b'', snd (iteration sample_clock 1 (always_returns DeepSeek (Some (1 / 10000)) ''b'') None
                        (sample_router three_providers))) \<and>
   state (snd (analyzeData sample_clock ''hi'' (sample_router three_providers))) DeepSeek =
     Some \<lparr>cooldown_until_ms = 0, consecutive_failures = 0, disabled_until_ms = 0, last_error = None\<rparr>"
proof -
  let ?c = "always_returns DeepSeek (Some (1 / 10000)) ''b''"
  let ?R = "sample_router three_providers"
  have ne: "three_providers \<noteq> []" by (simp add: three_providers_def)
  have f: "fst (iteration sample_clock 1 ?c None ?R) = Return ''b''"
    by code_simp
  then have it: "iteration sample_clock 1 ?c None ?R = (Return ''b'', snd (iteration sample_clock 1 ?c None ?R))"
    by (simp add: prod_eq_iff)
  have rk: "rankProviders 1 ?R =
      [?c, always_returns OpenAI (Some (2 / 10000)) ''a'', always_returns Claude (Some (25 / 100000)) ''c'']"
    by (simp add: rankProviders_def strategy_name_default strategy_sample_router [OF ne]
        providers_sample_router [OF ne] estimateTokens_def)
       (simp add: three_providers_def estimateCostUsd_def always_returns_def)
  have et: "estimateTokens ''hi'' = 1" by (simp add: estimateTokens_def)
  have st: "state ?R (name ?c) = Some initial_ProviderState"
    by (simp add: sample_router_eq [OF ne]) (simp add: three_providers_def always_returns_def)
  have n: "name ?c = DeepSeek" by (simp add: always_returns_def)
  let ?cs = "[always_returns OpenAI (Some (2 / 10000)) ''a'', always_returns Claude (Some (25 / 100000)) ''c'']"
  note inst = success_returns_immediately [where clk = sample_clock and est = 1 and c = ?c
      and le = None and r = ?R and x = "''b''" and r' = "snd (iteration sample_clock 1 ?c None ?R)"
      and cs = ?cs, THEN conjunct2, THEN mp, OF it]
  have an: "analyzeData sample_clock ''hi'' ?R = loop sample_clock 1 (?c # ?cs) None ?R"
    unfolding analyzeData_loop et rk by (rule refl)
  from inst st show ?thesis
    unfolding an by (simp add: n initial_ProviderState_def del: loop.simps)
qed

section \<open>Deadlines under failures\<close>

lemma iteration_deadlines:
  assumes "iteration clk est c le r = (f, r')" "\<forall>x. f \<noteq> Return x" "state r n = Some s"
  shows "\<exists>s'. state r' n = Some s' \<and> cooldown_until_ms s \<le> cooldown_until_ms s' \<and>
           disabled_until_ms s \<le> disabled_until_ms s'"
proof (cases "n = name c")
  case False
  with iteration_frame [OF assms(1), of n] assms(3) show ?thesis by simp
next
  case True
  from iteration_cases [OF assms(1)] consider
    (skipped) w where "r' = r\<lparr>world := w\<rparr>"
  | (refused) q lq w where "r' = cooldown clk (name c) (rateLimitCooldownMs r)
                   (emit (LogQuotaExceeded (name c) q) (r\<lparr>localQuota := lq, world := w\<rparr>))"
  | (tried) q lq w where "tryProvider clk est c q (r\<lparr>localQuota := lq, world := w\<rparr>) = (f, r')"
    by blast
  then show ?thesis
  proof cases
    case skipped
    then show ?thesis using assms(3) by simp
  next
    case refused
    then show ?thesis using assms(3) True
      by (auto simp: cooldown_def emit_def split: prod.splits)
  next
    case tried
    let ?r4 = "r\<lparr>localQuota := lq, world := w\<rparr>"
    obtain y w' where p: "provider c (world ?r4) = (y, w')" by (cases "provider c (world ?r4)")
    show ?thesis
    proof (cases y)
      case (Inr res)
      with tried p assms(2) show ?thesis
        by (auto simp: tryProvider_def Let_def emit_def)
    next
      case (Inl err)
      have st: "state ?r4 (name c) = Some s" using assms(3) True by simp
      from tryProvider_failure [OF p [unfolded Inl] st tried refl]
      show ?thesis unfolding True
        by (auto split: if_splits)
    qed
  qed
qed

lemma loop_deadlines:
  "loop clk est cs le r = (Inl e, r') \<Longrightarrow> state r n = Some s \<Longrightarrow>
     \<exists>s'. state r' n = Some s' \<and> cooldown_until_ms s \<le> cooldown_until_ms s' \<and>
          disabled_until_ms s \<le> disabled_until_ms s'"
proof (induction cs arbitrary: le r s)
  case Nil
  then show ?case by simp
next
  case (Cons c cs)
  obtain f r1 where it: "iteration clk est c le r = (f, r1)"
    by (cases "iteration clk est c le r")
  have nr: "\<forall>x. f \<noteq> Return x"
    using Cons.prems(1) it by (auto split: flow.splits)
  from iteration_deadlines [OF it nr Cons.prems(2)] obtain s1 where
    s1: "state r1 n = Some s1" "cooldown_until_ms s \<le> cooldown_until_ms s1"
      "disabled_until_ms s \<le> disabled_until_ms s1"
    by blast
  show ?case
  proof (cases f)
    case (Continue le')
    with Cons.prems(1) it have "loop clk est cs le' r1 = (Inl e, r')" by simp
    from Cons.IH [OF this s1(1)] s1(2,3) show ?thesis by fastforce
  next
    case (Return x)
    with nr show ?thesis by simp
  next
    case (Throw e')
    with Cons.prems(1) it have "r' = r1" by simp
    with s1 show ?thesis by simp
  qed
qed

text \<open>
  C6. \<^verbatim>\<open>cooldown\<close> and \<^verbatim>\<open>disable\<close> store the maximum of the existing deadline and
  \<open>now + duration\<close>. Hence a pass of the loop that does not return a result (a skip, a
  quota refusal, a failover or an abort) leaves both deadlines of every provider at least
  where they were, and so does every invocation of \<^verbatim>\<open>analyzeData\<close> that ends with an
  error.
\<close>

theorem deadlines_never_shortened:
  "(state r n = Some s \<and> clk (world r) = (now, w') \<longrightarrow>
      state (cooldown clk n ms r) n =
        Some (s\<lparr>cooldown_until_ms := max (cooldown_until_ms s) (now + ms)\<rparr>) \<and>
      state (disable clk n ms r) n =
        Some (s\<lparr>disabled_until_ms := max (disabled_until_ms s) (now + ms)\<rparr>)) \<and>
   (state r n = Some s \<and> iteration clk est c le r = (f, r') \<and> (\<forall>x. f \<noteq> Return x) \<longrightarrow>
      (\<exists>s'. state r' n = Some s' \<and> cooldown_until_ms s \<le> cooldown_until_ms s' \<and>
            disabled_until_ms s \<le> disabled_until_ms s')) \<and>
   (state r n = Some s \<and> analyzeData clk prompt r = (Inl e, r'') \<longrightarrow>
      (\<exists>s'. state r'' n = Some s' \<and> cooldown_until_ms s \<le> cooldown_until_ms s' \<and>
            disabled_until_ms s \<le> disabled_until_ms s'))"
proof (intro conjI impI; (elim conjE)?)
  assume "state r n = Some s" "clk (world r) = (now, w')"
  then show "state (cooldown clk n ms r) n =
        Some (s\<lparr>cooldown_until_ms := max (cooldown_until_ms s) (now + ms)\<rparr>)"
    "state (disable clk n ms r) n =
        Some (s\<lparr>disabled_until_ms := max (disabled_until_ms s) (now + ms)\<rparr>)"
    by (simp_all add: cooldown_def disable_def)
next
  assume "state r n = Some s" "iteration clk est c le r = (f, r')" "\<forall>x. f \<noteq> Return x"
  then show "\<exists>s'. state r' n = Some s' \<and> cooldown_until_ms s \<le> cooldown_until_ms s' \<and>
            disabled_until_ms s \<le> disabled_until_ms s'"
    using iteration_deadlines by blast
next
  assume "state r n = Some s" "analyzeData clk prompt r = (Inl e, r'')"
  then show "\<exists>s'. state r'' n = Some s' \<and> cooldown_until_ms s \<le> cooldown_until_ms s' \<and>
            disabled_until_ms s \<le> disabled_until_ms s'"
    using loop_deadlines [of clk "estimateTokens prompt" _ None r e r'' n s]
    by (simp add: analyzeData_loop)
qed

theorem deadlines_never_shortened_witness:
  "map_option cooldown_until_ms
     (state (cooldown sample_clock Claude 60000
        (sample_router [always_throws Claude None (OtherError ''429 Too Many Requests'')])) Claude) =
     Some 1060000 \<and>
   (\<exists>s'. state (snd (analyzeData sample_clock ''hi''
            (sample_router [always_throws Claude None (OtherError ''429 Too Many Requests'')]))) Claude =
            Some s' \<and>
         0 \<le> cooldown_until_ms s' \<and> 0 \<le> disabled_until_ms s')"
proof -
  let ?c = "always_throws Claude None (OtherError ''429 Too Many Requests'')"
  let ?R = "sample_router [?c]"
  have st: "state ?R Claude = Some initial_ProviderState"
    by (simp add: sample_router_eq always_throws_def)
  have ck: "sample_clock (world ?R) = (1000000, 1)"
    by (simp add: sample_router_eq sample_clock_def)
  have "fst (analyzeData sample_clock ''hi'' ?R) = Inl (OtherError ''429 Too Many Requests'')"
    by code_simp
  then have an: "analyzeData sample_clock ''hi'' ?R =
      (Inl (OtherError ''429 Too Many Requests''), snd (analyzeData sample_clock ''hi'' ?R))"
    by (simp add: prod_eq_iff)
  note inst = deadlines_never_shortened [where clk = sample_clock and r = ?R and n = Claude
      and s = initial_ProviderState and now = 1000000 and w' = 1 and ms = 60000
      and prompt = "''hi''" and e = "OtherError ''429 Too Many Requests''"
      and r'' = "snd (analyzeData sample_clock ''hi'' ?R)"]
  from inst [THEN conjunct1] st ck
  have 1: "map_option cooldown_until_ms (state (cooldown sample_clock Claude 60000 ?R) Claude) =
     Some 1060000"
    by (simp add: initial_ProviderState_def)
  from inst [THEN conjunct2, THEN conjunct2, THEN mp, OF conjI, OF st an]
  have 2: "\<exists>s'. state (snd (analyzeData sample_clock ''hi'' ?R)) Claude = Some s' \<and>
         0 \<le> cooldown_until_ms s' \<and> 0 \<le> disabled_until_ms s'"
    by (simp add: initial_ProviderState_def)
  from 1 2 show ?thesis by (rule conjI)
qed

section \<open>The local quota\<close>






end
